theory Spec2Isabelle
  imports Main
begin

section \<open>Data model\<close>

text \<open>
  The add-on of \<^verbatim>\<open>src/main.py\<close> (class \<^verbatim>\<open>TableExtractor\<close>) is embedded function by
  function. Exceptions are values: a function that can raise returns \<open>py_error + 'a\<close>.
\<close>

datatype py_error = TypeError | ValueError | IndexError

text \<open>A document of the hosting platform: the attributes the add-on reads.\<close>

record document =
  doc_id :: string
  page_count :: int

text \<open>
  The configuration dictionary \<^verbatim>\<open>self.data\<close>: one field per key, \<open>None\<close> when the key is
  absent. \<^verbatim>\<open>self.data.get(key, default)\<close> is \<open>dict_get\<close>; \<^verbatim>\<open>self.data.get(key)\<close> yields
  Python's \<^verbatim>\<open>None\<close> for an absent key, which is the \<open>None\<close> of the field.
\<close>

record addon_data =
  data_output_format :: "string option"
  data_start_page :: "int option"
  data_end_page :: "int option"

definition dict_get :: "'a option \<Rightarrow> 'a \<Rightarrow> 'a" where
  "dict_get entry dflt = (case entry of None \<Rightarrow> dflt | Some v \<Rightarrow> v)"

text \<open>
  The analysis service's result for one page: \<^verbatim>\<open>result.tables\<close>, \<^verbatim>\<open>table.cells\<close> and the three
  attributes read of each cell.
\<close>

record document_table_cell =
  cell_row_index :: int
  cell_column_index :: int
  cell_content :: string

record document_table =
  table_cells :: "document_table_cell list"

record analyze_result =
  tables :: "document_table list"

text \<open>The dictionaries built by \<^verbatim>\<open>get_table_data\<close>; the fields are the dictionary keys.\<close>

record cell_info =
  row_index :: int
  column_index :: int
  content :: string

record table_info =
  page_number :: int
  cells :: "cell_info list"

text \<open>A csv row mixes text and the integer page number.\<close>

datatype csv_value = CsvStr string | CsvInt int

type_synonym csv_row = "csv_value list"

section \<open>Cost estimation: \<^verbatim>\<open>calculate_cost\<close>\<close>

text \<open>
  The loop of \<^verbatim>\<open>calculate_cost\<close> with its running total. \<^verbatim>\<open>end_page\<close> is read without a
  default, so for an absent key the comparison \<^verbatim>\<open>end_page <= doc.page_count\<close> compares
  \<^verbatim>\<open>None\<close> with an integer and raises \<^verbatim>\<open>TypeError\<close>.
\<close>

fun count_pages :: "addon_data \<Rightarrow> document list \<Rightarrow> int \<Rightarrow> py_error + int" where
  "count_pages d [] total_num_pages = Inr total_num_pages"
| "count_pages d (doc # docs) total_num_pages =
     (let start_page = dict_get (data_start_page d) 1 in
      case data_end_page d of
        None \<Rightarrow> Inl TypeError
      | Some end_page \<Rightarrow>
          let last_page = (if end_page \<le> page_count doc then end_page else page_count doc);
              pages_to_analyze = last_page - start_page + 1
          in count_pages d docs (total_num_pages + pages_to_analyze))"

text \<open>The returned cost; the caller records the \<^verbatim>\<open>print(cost)\<close>.\<close>

definition calculate_cost :: "addon_data \<Rightarrow> document list \<Rightarrow> py_error + int" where
  "calculate_cost d documents =
     (case count_pages d documents 0 of
        Inl err \<Rightarrow> Inl err
      | Inr total_num_pages \<Rightarrow> Inr (total_num_pages * 7))"

section \<open>Shaping the service's result: \<^verbatim>\<open>get_table_data\<close>\<close>

fun cells_loop :: "document_table_cell list \<Rightarrow> cell_info list \<Rightarrow> cell_info list" where
  "cells_loop [] acc = acc"
| "cells_loop (cell # rest) acc =
     cells_loop rest
       (acc @ [\<lparr>row_index = cell_row_index cell,
                column_index = cell_column_index cell,
                content = cell_content cell\<rparr>])"

fun tables_loop :: "document_table list \<Rightarrow> int \<Rightarrow> table_info list \<Rightarrow> table_info list" where
  "tables_loop [] page_num table_data = table_data"
| "tables_loop (table # rest) page_num table_data =
     tables_loop rest page_num
       (table_data @ [\<lparr>page_number = page_num, cells = cells_loop (table_cells table) []\<rparr>])"

definition get_table_data :: "analyze_result \<Rightarrow> int \<Rightarrow> table_info list" where
  "get_table_data result page_num = tables_loop (tables result) page_num []"

section \<open>Tabular export: \<^verbatim>\<open>convert_to_csv\<close>\<close>

text \<open>
  \<^verbatim>\<open>max\<close> of an empty sequence raises \<^verbatim>\<open>ValueError\<close>. Indexing a list follows Python: a
  negative index counts from the end, and an index outside the list raises \<^verbatim>\<open>IndexError\<close>.
\<close>

fun py_max :: "int list \<Rightarrow> py_error + int" where
  "py_max [] = Inl ValueError"
| "py_max (x # xs) = Inr (fold max xs x)"

definition py_index :: "'a list \<Rightarrow> int \<Rightarrow> nat option" where
  "py_index xs i =
     (if 0 \<le> i \<and> i < int (length xs) then Some (nat i)
      else if i < 0 \<and> - int (length xs) \<le> i then Some (nat (int (length xs) + i))
      else None)"

text \<open>The loop \<^verbatim>\<open>rows[row_index].append(content)\<close> over the cells of one table.\<close>

fun place_cells :: "cell_info list \<Rightarrow> csv_row list \<Rightarrow> py_error + csv_row list" where
  "place_cells [] rows = Inr rows"
| "place_cells (cell # rest) rows =
     (case py_index rows (row_index cell) of
        None \<Rightarrow> Inl IndexError
      | Some i \<Rightarrow> place_cells rest (rows[i := rows ! i @ [CsvStr (content cell)]]))"

text \<open>The outer loop over the table records, with the accumulated \<^verbatim>\<open>csv_data\<close>.\<close>

fun convert_loop :: "table_info list \<Rightarrow> csv_row list \<Rightarrow> py_error + csv_row list" where
  "convert_loop [] csv_data = Inr csv_data"
| "convert_loop (t # rest) csv_data =
     (case py_max (map row_index (cells t)) of
        Inl err \<Rightarrow> Inl err
      | Inr m \<Rightarrow>
          (let max_row_index = m + 1;
               rows = replicate (nat max_row_index) [];
               first_row = [CsvStr ''Page Number:'', CsvInt (page_number t)]
           in case place_cells (cells t) rows of
                Inl err \<Rightarrow> Inl err
              | Inr rows' \<Rightarrow> convert_loop rest ((csv_data @ [first_row]) @ rows' @ [[], []])))"

definition convert_to_csv :: "table_info list \<Rightarrow> py_error + csv_row list" where
  "convert_to_csv table_data = convert_loop table_data []"

section \<open>The run: \<^verbatim>\<open>validate\<close> and \<^verbatim>\<open>main\<close>\<close>

text \<open>
  The add-on instance with its collaborators, which are parameters of the model: the
  platform's document selection and billing, and the analysis service (the download of a
  page image, its conversion and \<^verbatim>\<open>begin_analyze_document(...).result()\<close> for that page).
  \<^verbatim>\<open>charge_credits\<close> returns or raises one of the two exceptions \<^verbatim>\<open>validate\<close> catches.
\<close>

datatype charge_result = Charged | RaisesValueError | RaisesAPIError

record addon =
  data :: addon_data
  org_id :: "int option"
  get_document_count :: "nat option"
  get_documents :: "document list"
  charge_credits :: "int \<Rightarrow> charge_result"
  analyze :: "string \<Rightarrow> int \<Rightarrow> analyze_result"

text \<open>How a run stops early: \<^verbatim>\<open>sys.exit(0)\<close>, or an exception nobody catches.\<close>

datatype stop = SysExit0 | Unhandled py_error

text \<open>
  An archive member is the text \<^verbatim>\<open>json.dumps(table_data, indent=4)\<close>, kept as the value that
  is serialised, or the rows of the csv file that is added.
\<close>

datatype file_content = JsonDump "table_info list" | CsvFile "csv_row list"

text \<open>
  What a run does to the world: the message set on the run, the printed costs, the amounts
  charged, the calls to the analysis service (document and page), the local csv files,
  the members of \<^verbatim>\<open>tables.zip\<close> (\<open>None\<close> until the archive is created), and the upload.
\<close>

record run =
  message :: "string option"
  printed :: "int list"
  charged :: "int list"
  analysis_calls :: "(string \<times> int) list"
  csv_files :: "string \<Rightarrow> csv_row list option"
  archive :: "(string \<times> file_content) list option"
  uploaded :: bool

definition initial_run :: run where
  "initial_run =
     \<lparr>message = None, printed = [], charged = [], analysis_calls = [],
      csv_files = (\<lambda>_. None), archive = None, uploaded = False\<rparr>"

text \<open>\<^verbatim>\<open>not self.org_id\<close>: an absent organization and the id 0 are both falsy.\<close>

definition org_missing :: "addon \<Rightarrow> bool" where
  "org_missing self = (case org_id self of None \<Rightarrow> True | Some i \<Rightarrow> i = 0)"

definition validate :: "addon \<Rightarrow> run \<Rightarrow> (stop + bool) \<times> run" where
  "validate self st =
     (if get_document_count self = None then
        (Inl SysExit0,
         st\<lparr>message := Some (''It looks like no documents were selected. Search for some or '' @
                              ''select them and run again.'')\<rparr>)
      else if org_missing self then
        (Inl SysExit0, st\<lparr>message := Some ''No organization to charge.''\<rparr>)
      else
        (case calculate_cost (data self) (get_documents self) of
           Inl err \<Rightarrow> (Inl (Unhandled err), st)
         | Inr ai_credit_cost \<Rightarrow>
             (let st1 = st\<lparr>printed := printed st @ [ai_credit_cost]\<rparr>
              in case charge_credits self ai_credit_cost of
                   Charged \<Rightarrow> (Inr True, st1\<lparr>charged := charged st1 @ [ai_credit_cost]\<rparr>)
                 | RaisesValueError \<Rightarrow> (Inr False, st1)
                 | RaisesAPIError \<Rightarrow> (Inr False, st1))))"

text \<open>
  The gates of \<^verbatim>\<open>main\<close> before the analysis phase (up to the check of \<^verbatim>\<open>start_page\<close>):
  \<open>Inr ()\<close> when the run goes on to authenticate and analyse.
\<close>

definition run_gates :: "addon \<Rightarrow> run \<Rightarrow> (stop + unit) \<times> run" where
  "run_gates self st =
     (let start_page = dict_get (data_start_page (data self)) 1;
          end_page = dict_get (data_end_page (data self)) 1
      in case validate self st of
           (Inl s, st1) \<Rightarrow> (Inl s, st1)
         | (Inr ok, st1) \<Rightarrow>
             if \<not> ok then
               (Inl SysExit0,
                st1\<lparr>message := Some (''You do not have sufficient AI credits to run this '' @
                                     ''Add-On on this document set'')\<rparr>)
             else if end_page < start_page then
               (Inl SysExit0,
                st1\<lparr>message := Some (''The end page you provided is smaller than the '' @
                                     ''start page, try again'')\<rparr>)
             else if start_page < 1 then
               (Inl SysExit0,
                st1\<lparr>message := Some ''Your start page is less than 1, please try again''\<rparr>)
             else (Inr (), st1))"

text \<open>\<^verbatim>\<open>range(a, b)\<close> over integers.\<close>

definition py_range :: "int \<Rightarrow> int \<Rightarrow> int list" where
  "py_range a b = [a..b - 1]"

text \<open>The loop over the pages of one document: one analysis call per page, in order.\<close>

fun page_loop ::
  "addon \<Rightarrow> document \<Rightarrow> int list \<Rightarrow> table_info list \<times> run \<Rightarrow> table_info list \<times> run" where
  "page_loop self document [] (table_data, st) = (table_data, st)"
| "page_loop self document (page_num # rest) (table_data, st) =
     (let result = analyze self (doc_id document) page_num
      in page_loop self document rest
           (table_data @ get_table_data result page_num,
            st\<lparr>analysis_calls := analysis_calls st @ [(doc_id document, page_num)]\<rparr>))"

text \<open>The page range of one document, clamped as \<^verbatim>\<open>main\<close> clamps \<^verbatim>\<open>outer_bound\<close>.\<close>

definition document_pages :: "addon \<Rightarrow> document \<Rightarrow> int list" where
  "document_pages self document =
     (let start_page = dict_get (data_start_page (data self)) 1;
          end_page = dict_get (data_end_page (data self)) 1;
          outer_bound = (if end_page > page_count document then page_count document + 1
                         else end_page + 1)
      in py_range start_page outer_bound)"

definition zip_add :: "string \<times> file_content \<Rightarrow> run \<Rightarrow> run" where
  "zip_add entry st = st\<lparr>archive := map_option (\<lambda>entries. entries @ [entry]) (archive st)\<rparr>"

text \<open>
  The export of one document's tables. \<^verbatim>\<open>save_to_csv\<close> opens the file in append mode, so
  rows already in a file of that name stay in front.
\<close>

definition export_tables :: "addon \<Rightarrow> document \<Rightarrow> table_info list \<Rightarrow> run \<Rightarrow> stop option \<times> run" where
  "export_tables self document table_data st =
     (let output_format = dict_get (data_output_format (data self)) ''json'';
          st1 = (if output_format = ''json''
                 then zip_add (''tables-'' @ doc_id document @ ''.json'', JsonDump table_data) st
                 else st)
      in if output_format = ''csv'' then
           (let output_file_path = ''tables-'' @ doc_id document @ ''.csv''
            in case convert_to_csv table_data of
                 Inl err \<Rightarrow> (Some (Unhandled err), st1)
               | Inr csv_data \<Rightarrow>
                   (let written = dict_get (csv_files st1 output_file_path) [] @ csv_data;
                        st2 = st1\<lparr>csv_files := (csv_files st1)(output_file_path \<mapsto> written)\<rparr>
                    in (None, zip_add (output_file_path, CsvFile written) st2)))
         else (None, st1))"

fun document_loop :: "addon \<Rightarrow> document list \<Rightarrow> run \<Rightarrow> stop option \<times> run" where
  "document_loop self [] st = (None, st)"
| "document_loop self (document # rest) st =
     (case page_loop self document (document_pages self document) ([], st) of
        (table_data, st1) \<Rightarrow>
          (case export_tables self document table_data st1 of
             (Some s, st2) \<Rightarrow> (Some s, st2)
           | (None, st2) \<Rightarrow> document_loop self rest st2))"

text \<open>
  \<^verbatim>\<open>main\<close>: the gates, then the archive is created, every document is analysed and
  exported, and the archive is uploaded. The first component is \<open>None\<close> when \<^verbatim>\<open>main\<close> returns.
\<close>

definition main :: "addon \<Rightarrow> stop option \<times> run" where
  "main self =
     (case run_gates self initial_run of
        (Inl s, st) \<Rightarrow> (Some s, st)
      | (Inr _, st) \<Rightarrow>
          (case document_loop self (get_documents self) (st\<lparr>archive := Some []\<rparr>) of
             (Some s, st1) \<Rightarrow> (Some s, st1)
           | (None, st1) \<Rightarrow> (None, st1\<lparr>uploaded := True\<rparr>)))"

section \<open>Properties of the cost estimator\<close>

lemma count_pages_configured:
  "data_end_page d = Some e \<Longrightarrow>
   count_pages d docs n =
     Inr (n + (\<Sum>doc\<leftarrow>docs. min e (page_count doc) - dict_get (data_start_page d) 1 + 1))"
  by (induction docs arbitrary: n) (simp_all add: Let_def min_def)

text \<open>
  Claim C1. With \<^verbatim>\<open>end_page\<close> configured as \<open>e\<close> and \<^verbatim>\<open>start_page\<close> as configured (1 when
  absent), \<^verbatim>\<open>calculate_cost\<close> returns, for every list of documents, 7 times the sum over the
  documents of \<open>min e page_count - start_page + 1\<close>. A term of the sum is negative for a
  document shorter than \<open>start_page - 1\<close>; nothing clamps it.
\<close>

theorem calculate_cost_formula:
  assumes "data_end_page d = Some e"
  shows "calculate_cost d docs =
           Inr ((\<Sum>doc\<leftarrow>docs. min e (page_count doc) - dict_get (data_start_page d) 1 + 1) * 7)"
  by (simp add: calculate_cost_def count_pages_configured [OF assms])

text \<open>
  Pages 2 to 5 of documents with 3, 9 and 0 pages: 2 + 4 - 1 = 5 pages, 35 credits.
\<close>

theorem calculate_cost_formula_witness:
  "calculate_cost \<lparr>data_output_format = None, data_start_page = Some 2, data_end_page = Some 5\<rparr>
     [\<lparr>doc_id = ''a'', page_count = 3\<rparr>, \<lparr>doc_id = ''b'', page_count = 9\<rparr>,
      \<lparr>doc_id = ''c'', page_count = 0\<rparr>] = Inr 35"
  using calculate_cost_formula
    [of "\<lparr>data_output_format = None, data_start_page = Some 2, data_end_page = Some 5\<rparr>" 5
        "[\<lparr>doc_id = ''a'', page_count = 3\<rparr>, \<lparr>doc_id = ''b'', page_count = 9\<rparr>,
          \<lparr>doc_id = ''c'', page_count = 0\<rparr>]"]
  by (simp add: dict_get_def)

section \<open>Properties of the table result shaper\<close>

lemma cells_loop_map:
  "cells_loop cs acc =
     acc @ map (\<lambda>cell. \<lparr>row_index = cell_row_index cell, column_index = cell_column_index cell,
                         content = cell_content cell\<rparr>) cs"
  by (induction cs arbitrary: acc) simp_all

lemma tables_loop_map:
  "tables_loop ts p acc =
     acc @ map (\<lambda>table. \<lparr>page_number = p, cells = cells_loop (table_cells table) []\<rparr>) ts"
  by (induction ts arbitrary: acc) simp_all

lemma get_table_data_map:
  "get_table_data result p =
     map (\<lambda>table. \<lparr>page_number = p,
                     cells = map (\<lambda>cell. \<lparr>row_index = cell_row_index cell,
                                           column_index = cell_column_index cell,
                                           content = cell_content cell\<rparr>) (table_cells table)\<rparr>)
       (tables result)"
  by (simp add: get_table_data_def tables_loop_map cells_loop_map)

text \<open>
  Claim C6. \<^verbatim>\<open>get_table_data\<close> is a function of the result and the page number alone. It
  returns one record per table of the result, each with the given page number and with one
  cell record per cell of its table, and the triples (row index, column index, content)
  of the records are those of the service, table by table and cell by cell in the
  service's order.
\<close>

theorem get_table_data_shape:
  "length (get_table_data result p) = length (tables result) \<and>
   map page_number (get_table_data result p) = replicate (length (tables result)) p \<and>
   map (\<lambda>t. length (cells t)) (get_table_data result p) =
     map (\<lambda>table. length (table_cells table)) (tables result) \<and>
   map (\<lambda>t. map (\<lambda>c. (row_index c, column_index c, content c)) (cells t))
       (get_table_data result p) =
     map (\<lambda>table. map (\<lambda>cell. (cell_row_index cell, cell_column_index cell, cell_content cell))
                     (table_cells table)) (tables result)"
  by (simp add: get_table_data_map comp_def map_replicate_const)

section \<open>Properties of the tabular export\<close>

lemma py_index_in_range:
  "0 \<le> i \<Longrightarrow> i < int (length xs) \<Longrightarrow> py_index xs i = Some (nat i)"
  by (simp add: py_index_def)

lemma py_max_Max:
  assumes "xs \<noteq> []"
  shows "py_max xs = Inr (Max (set xs))"
proof (cases xs)
  case Nil
  then show ?thesis using assms by simp
next
  case (Cons x ys)
  then show ?thesis using Max.set_eq_fold [of x ys] by simp
qed

lemma place_cells_rows:
  "\<forall>c \<in> set cs. 0 \<le> row_index c \<and> row_index c < int (length rows) \<Longrightarrow>
   place_cells cs rows =
     Inr (map (\<lambda>i. rows ! i @ map (\<lambda>c. CsvStr (content c)) (filter (\<lambda>c. row_index c = int i) cs))
            [0..<length rows])"
proof (induction cs arbitrary: rows)
  case Nil
  then show ?case by (simp add: map_nth)
next
  case (Cons c cs)
  let ?k = "nat (row_index c)"
  let ?rows = "rows[?k := rows ! ?k @ [CsvStr (content c)]]"
  from Cons.prems have k: "0 \<le> row_index c" "row_index c < int (length rows)" by simp_all
  then have klen: "?k < length rows" by simp
  have idx: "py_index rows (row_index c) = Some ?k"
    using k by (rule py_index_in_range)
  have rest: "\<forall>c' \<in> set cs. 0 \<le> row_index c' \<and> row_index c' < int (length ?rows)"
    using Cons.prems by simp
  have "place_cells (c # cs) rows = place_cells cs ?rows"
    by (simp add: idx)
  also have "\<dots> = Inr (map (\<lambda>i. ?rows ! i @ map (\<lambda>c. CsvStr (content c))
                                  (filter (\<lambda>c. row_index c = int i) cs)) [0..<length ?rows])"
    by (rule Cons.IH [OF rest])
  also have "map (\<lambda>i. ?rows ! i @ map (\<lambda>c. CsvStr (content c))
                                  (filter (\<lambda>c. row_index c = int i) cs)) [0..<length ?rows]
        = map (\<lambda>i. rows ! i @ map (\<lambda>c. CsvStr (content c))
                                  (filter (\<lambda>c. row_index c = int i) (c # cs))) [0..<length rows]"
  proof (rule map_cong)
    show "[0..<length ?rows] = [0..<length rows]" by simp
  next
    fix i assume "i \<in> set [0..<length rows]"
    then have i: "i < length rows" by simp
    show "?rows ! i @ map (\<lambda>c. CsvStr (content c)) (filter (\<lambda>c. row_index c = int i) cs)
          = rows ! i @ map (\<lambda>c. CsvStr (content c)) (filter (\<lambda>c. row_index c = int i) (c # cs))"
    proof (cases "i = ?k")
      case True
      then have "row_index c = int i" using k by simp
      then show ?thesis using True klen by simp
    next
      case False
      then have "row_index c \<noteq> int i" using k by auto
      then show ?thesis using False i by simp
    qed
  qed
  finally show ?case .
qed

lemma place_cells_column_index:
  "place_cells (map (\<lambda>c. c\<lparr>column_index := f c\<rparr>) cs) rows = place_cells cs rows"
  by (induction cs arbitrary: rows) (simp_all split: option.splits)

lemma table_rows_placed:
  assumes ne: "cells t \<noteq> []"
      and nonneg: "\<forall>c \<in> set (cells t). 0 \<le> row_index c"
  shows "py_max (map row_index (cells t)) = Inr (Max (row_index ` set (cells t)))"
    and "place_cells (cells t) (replicate (nat (Max (row_index ` set (cells t)) + 1)) []) =
           Inr (map (\<lambda>i. map (\<lambda>c. CsvStr (content c)) (filter (\<lambda>c. row_index c = int i) (cells t)))
                  [0..<nat (Max (row_index ` set (cells t)) + 1)])"
proof -
  let ?m = "Max (row_index ` set (cells t))"
  show "py_max (map row_index (cells t)) = Inr ?m"
    using py_max_Max [of "map row_index (cells t)"] ne by simp
  have le: "\<forall>c \<in> set (cells t). row_index c \<le> ?m" by simp
  have "\<forall>c \<in> set (cells t). 0 \<le> row_index c \<and>
          row_index c < int (length (replicate (nat (?m + 1)) ([] :: csv_row)))"
  proof
    fix c assume c: "c \<in> set (cells t)"
    then have "0 \<le> row_index c" "row_index c \<le> ?m" using nonneg le by simp_all
    then show "0 \<le> row_index c \<and> row_index c < int (length (replicate (nat (?m + 1)) ([] :: csv_row)))"
      by simp
  qed
  from place_cells_rows [OF this]
  show "place_cells (cells t) (replicate (nat (?m + 1)) []) =
           Inr (map (\<lambda>i. map (\<lambda>c. CsvStr (content c)) (filter (\<lambda>c. row_index c = int i) (cells t)))
                  [0..<nat (?m + 1)])"
    by simp
qed

lemma convert_loop_blocks:
  assumes "\<forall>t \<in> set ts. cells t \<noteq> [] \<and> (\<forall>c \<in> set (cells t). 0 \<le> row_index c)"
  shows "convert_loop ts acc =
     Inr (acc @ concat (map (\<lambda>t.
        [CsvStr ''Page Number:'', CsvInt (page_number t)] #
        map (\<lambda>i. map (\<lambda>c. CsvStr (content c)) (filter (\<lambda>c. row_index c = int i) (cells t)))
            [0..<nat (Max (row_index ` set (cells t)) + 1)] @ [[], []]) ts))"
  using assms
proof (induction ts arbitrary: acc)
  case Nil
  then show ?case by simp
next
  case (Cons t ts)
  from Cons.prems have t: "cells t \<noteq> []" "\<forall>c \<in> set (cells t). 0 \<le> row_index c"
    and rest: "\<forall>t \<in> set ts. cells t \<noteq> [] \<and> (\<forall>c \<in> set (cells t). 0 \<le> row_index c)"
    by simp_all
  show ?case
    by (simp add: table_rows_placed [OF t] Cons.IH [OF rest] Let_def)
qed

lemma convert_loop_column_index:
  "convert_loop (map (\<lambda>t. t\<lparr>cells := map (\<lambda>c. c\<lparr>column_index := f c\<rparr>) (cells t)\<rparr>) ts) acc =
   convert_loop ts acc"
proof (induction ts arbitrary: acc)
  case Nil
  then show ?case by simp
next
  case (Cons t ts)
  have "map row_index (map (\<lambda>c. c\<lparr>column_index := f c\<rparr>) (cells t)) = map row_index (cells t)"
    by simp
  then show ?case
    by (simp add: place_cells_column_index Cons.IH comp_def split: sum.splits)
qed

lemma convert_loop_empty_cells:
  "t \<in> set ts \<Longrightarrow> cells t = [] \<Longrightarrow> isl (convert_loop ts acc)"
proof (induction ts arbitrary: acc)
  case Nil
  then show ?case by simp
next
  case (Cons u ts)
  show ?case
  proof (cases "u = t")
    case True
    then show ?thesis using Cons.prems by simp
  next
    case False
    then have "t \<in> set ts" using Cons.prems by simp
    then show ?thesis using Cons.IH Cons.prems(2)
      by (simp add: Let_def split: sum.splits)
  qed
qed

text \<open>
  Claim C3. For table records with at least one cell and 0-based row indices,
  \<^verbatim>\<open>convert_to_csv\<close> returns, per record, the header row, then for each row \<open>i\<close> up to the
  largest row index the contents of the cells whose row index is \<open>i\<close>, in the order the
  cells arrive, then two empty rows. The column index takes no part: replacing the column
  indices by any others leaves the result of \<^verbatim>\<open>convert_to_csv\<close> unchanged.
\<close>

theorem convert_to_csv_arrival_order:
  assumes "\<forall>t \<in> set table_data. cells t \<noteq> [] \<and> (\<forall>c \<in> set (cells t). 0 \<le> row_index c)"
  shows "convert_to_csv table_data =
           Inr (concat (map (\<lambda>t.
             [CsvStr ''Page Number:'', CsvInt (page_number t)] #
             map (\<lambda>i. map (\<lambda>c. CsvStr (content c)) (filter (\<lambda>c. row_index c = int i) (cells t)))
                 [0..<nat (Max (row_index ` set (cells t)) + 1)] @ [[], []]) table_data)) \<and>
         convert_to_csv (map (\<lambda>t. t\<lparr>cells := map (\<lambda>c. c\<lparr>column_index := f c\<rparr>) (cells t)\<rparr>) table_data) =
           convert_to_csv table_data"
  by (simp add: convert_to_csv_def convert_loop_blocks [OF assms] convert_loop_column_index)

text \<open>
  Four cells arriving with columns 5, 3, 0, 1: within each row the contents stay in
  arrival order, not in column order.
\<close>

theorem convert_to_csv_arrival_order_witness:
  "convert_to_csv
     [\<lparr>page_number = 4,
       cells = [\<lparr>row_index = 1, column_index = 5, content = ''d''\<rparr>,
                \<lparr>row_index = 0, column_index = 3, content = ''b''\<rparr>,
                \<lparr>row_index = 1, column_index = 0, content = ''c''\<rparr>,
                \<lparr>row_index = 0, column_index = 1, content = ''a''\<rparr>]\<rparr>] =
   Inr [[CsvStr ''Page Number:'', CsvInt 4],
        [CsvStr ''b'', CsvStr ''a''],
        [CsvStr ''d'', CsvStr ''c''],
        [], []]"
proof -
  let ?td = "[\<lparr>page_number = 4,
       cells = [\<lparr>row_index = 1, column_index = 5, content = ''d''\<rparr>,
                \<lparr>row_index = 0, column_index = 3, content = ''b''\<rparr>,
                \<lparr>row_index = 1, column_index = 0, content = ''c''\<rparr>,
                \<lparr>row_index = 0, column_index = 1, content = ''a''\<rparr>]\<rparr>]"
  have h: "\<forall>t \<in> set ?td. cells t \<noteq> [] \<and> (\<forall>c \<in> set (cells t). 0 \<le> row_index c)"
    by simp
  have two: "[0..<2] = [0, Suc 0]" by (simp add: upt_rec)
  from convert_to_csv_arrival_order [OF h, THEN conjunct1] show ?thesis
    by (simp add: two)
qed


lemma Max_row_index_nonneg:
  assumes "cells t \<noteq> []" and "\<forall>c \<in> set (cells t). 0 \<le> row_index c"
  shows "0 \<le> Max (row_index ` set (cells t))"
proof -
  from assms(1) obtain c where c: "c \<in> set (cells t)" by (cases "cells t") auto
  then have "row_index c \<le> Max (row_index ` set (cells t))" by simp
  moreover have "0 \<le> row_index c" using assms(2) c by simp
  ultimately show ?thesis by linarith
qed

text \<open>
  Claim C7. For table records with at least one cell and 0-based row indices, the csv data
  is the concatenation, in table order, of one block per record; the block of a record
  whose largest row index is \<open>r\<close> has \<open>1 + (r + 1) + 2\<close> rows: it starts with the row
  \<open>["Page Number:", page_number]\<close> and its last two rows, after the \<open>r + 1\<close> content rows,
  are empty.
\<close>

theorem convert_to_csv_block_shape:
  assumes "\<forall>t \<in> set table_data. cells t \<noteq> [] \<and> (\<forall>c \<in> set (cells t). 0 \<le> row_index c)"
  shows "\<exists>blocks. convert_to_csv table_data = Inr (concat blocks) \<and>
           list_all2 (\<lambda>t block.
               int (length block) = 1 + (Max (row_index ` set (cells t)) + 1) + 2 \<and>
               hd block = [CsvStr ''Page Number:'', CsvInt (page_number t)] \<and>
               drop (1 + nat (Max (row_index ` set (cells t)) + 1)) block = [[], []])
             table_data blocks"
proof -
  let ?block = "\<lambda>t. [CsvStr ''Page Number:'', CsvInt (page_number t)] #
             map (\<lambda>i. map (\<lambda>c. CsvStr (content c)) (filter (\<lambda>c. row_index c = int i) (cells t)))
                 [0..<nat (Max (row_index ` set (cells t)) + 1)] @ [[], []]"
  have out: "convert_to_csv table_data = Inr (concat (map ?block table_data))"
    by (simp add: convert_to_csv_def convert_loop_blocks [OF assms])
  have "list_all2 (\<lambda>t block.
               int (length block) = 1 + (Max (row_index ` set (cells t)) + 1) + 2 \<and>
               hd block = [CsvStr ''Page Number:'', CsvInt (page_number t)] \<and>
               drop (1 + nat (Max (row_index ` set (cells t)) + 1)) block = [[], []])
             table_data (map ?block table_data)"
    unfolding list_all2_map2
  proof (rule list_all2_all_nthI)
    show "length table_data = length table_data" by simp
  next
    fix k assume "k < length table_data"
    then have "table_data ! k \<in> set table_data" by simp
    then have "cells (table_data ! k) \<noteq> []"
        "\<forall>c \<in> set (cells (table_data ! k)). 0 \<le> row_index c"
      using assms by simp_all
    then have "0 \<le> Max (row_index ` set (cells (table_data ! k)))"
      by (rule Max_row_index_nonneg)
    then show "int (length (?block (table_data ! k))) =
                 1 + (Max (row_index ` set (cells (table_data ! k))) + 1) + 2 \<and>
               hd (?block (table_data ! k)) =
                 [CsvStr ''Page Number:'', CsvInt (page_number (table_data ! k))] \<and>
               drop (1 + nat (Max (row_index ` set (cells (table_data ! k))) + 1))
                 (?block (table_data ! k)) = [[], []]"
      by simp
  qed
  with out show ?thesis by blast
qed

text \<open>A table with row indices 0, 2, 1 gives a block of 6 rows.\<close>

theorem convert_to_csv_block_shape_witness:
  "\<exists>out. convert_to_csv
            [\<lparr>page_number = 1,
              cells = [\<lparr>row_index = 0, column_index = 0, content = ''x''\<rparr>,
                       \<lparr>row_index = 2, column_index = 0, content = ''z''\<rparr>,
                       \<lparr>row_index = 1, column_index = 0, content = ''y''\<rparr>]\<rparr>] = Inr out \<and>
          length out = 6 \<and> hd out = [CsvStr ''Page Number:'', CsvInt 1] \<and> drop 4 out = [[], []]"
proof -
  let ?td = "[\<lparr>page_number = 1,
              cells = [\<lparr>row_index = 0, column_index = 0, content = ''x''\<rparr>,
                       \<lparr>row_index = 2, column_index = 0, content = ''z''\<rparr>,
                       \<lparr>row_index = 1, column_index = 0, content = ''y''\<rparr>]\<rparr>]"
  have h: "\<forall>t \<in> set ?td. cells t \<noteq> [] \<and> (\<forall>c \<in> set (cells t). 0 \<le> row_index c)"
    by simp
  from convert_to_csv_block_shape [OF h] show ?thesis
    by (auto simp add: list_all2_Cons1)
qed

lemma get_table_data_empty_table:
  assumes "table \<in> set (tables result)" and "table_cells table = []"
  shows "\<lparr>page_number = p, cells = []\<rparr> \<in> set (get_table_data result p)"
proof -
  have "\<lparr>page_number = p, cells = []\<rparr> =
          (\<lambda>table. \<lparr>page_number = p,
                     cells = map (\<lambda>cell. \<lparr>row_index = cell_row_index cell,
                                           column_index = cell_column_index cell,
                                           content = cell_content cell\<rparr>) (table_cells table)\<rparr>) table"
    using assms(2) by simp
  then show ?thesis
    unfolding get_table_data_map using assms(1) by (metis (no_types, lifting) imageI set_map)
qed

text \<open>
  Claim C10. When some table record has no cells, \<^verbatim>\<open>convert_to_csv\<close> raises instead of
  returning csv data, and with the csv output format the export of that document stops the
  run with the unhandled error; for the record alone the error is the \<^verbatim>\<open>ValueError\<close> of
  \<^verbatim>\<open>max\<close> on an empty sequence. The shaper produces such a record for every table the
  service returns with zero cells.
\<close>

theorem convert_to_csv_empty_cells:
  assumes "t \<in> set table_data" and "cells t = []"
  shows "(\<exists>err. convert_to_csv table_data = Inl err \<and>
            (data_output_format (data self) = Some ''csv'' \<longrightarrow>
               fst (export_tables self document table_data st) = Some (Unhandled err))) \<and>
         convert_to_csv [t] = Inl ValueError \<and>
         (\<forall>result p table. table \<in> set (tables result) \<and> table_cells table = [] \<longrightarrow>
            (\<exists>u \<in> set (get_table_data result p). cells u = []))"
proof -
  have "isl (convert_to_csv table_data)"
    unfolding convert_to_csv_def using assms by (rule convert_loop_empty_cells)
  then obtain err where err: "convert_to_csv table_data = Inl err"
    by (cases "convert_to_csv table_data") simp_all
  have export: "data_output_format (data self) = Some ''csv'' \<longrightarrow>
               fst (export_tables self document table_data st) = Some (Unhandled err)"
    by (simp add: export_tables_def dict_get_def err Let_def)
  have single: "convert_to_csv [t] = Inl ValueError"
    using assms(2) by (simp add: convert_to_csv_def)
  have shaper: "\<forall>result p table. table \<in> set (tables result) \<and> table_cells table = [] \<longrightarrow>
            (\<exists>u \<in> set (get_table_data result p). cells u = [])"
  proof (intro allI impI)
    fix result :: analyze_result and p :: int and table :: document_table
    assume "table \<in> set (tables result) \<and> table_cells table = []"
    then have "table \<in> set (tables result)" and "table_cells table = []"
      by simp_all
    then have "\<lparr>page_number = p, cells = []\<rparr> \<in> set (get_table_data result p)"
      by (rule get_table_data_empty_table)
    then show "\<exists>u \<in> set (get_table_data result p). cells u = []"
      by (rule bexI [rotated]) simp
  qed
  from err export single shaper show ?thesis by blast
qed

text \<open>A table with a cell followed by a table without cells: the export raises.\<close>

theorem convert_to_csv_empty_cells_witness:
  "convert_to_csv
     [\<lparr>page_number = 1, cells = [\<lparr>row_index = 0, column_index = 0, content = ''x''\<rparr>]\<rparr>,
      \<lparr>page_number = 2, cells = []\<rparr>] = Inl ValueError \<and>
   convert_to_csv [\<lparr>page_number = 2, cells = []\<rparr>] = Inl ValueError"
proof -
  have "\<lparr>page_number = 2, cells = []\<rparr> \<in>
          set [\<lparr>page_number = 1, cells = [\<lparr>row_index = 0, column_index = 0, content = ''x''\<rparr>]\<rparr>,
               \<lparr>page_number = 2, cells = []\<rparr>]"
    and "cells \<lparr>page_number = 2, cells = []\<rparr> = []"
    by simp_all
  from convert_to_csv_empty_cells [OF this] show ?thesis
    by (auto simp add: convert_to_csv_def py_index_def)
qed

section \<open>Properties of the run\<close>

lemma page_loop_result:
  "page_loop self d pages (td, st) =
     (td @ concat (map (\<lambda>p. get_table_data (analyze self (doc_id d) p) p) pages),
      st\<lparr>analysis_calls := analysis_calls st @ map (Pair (doc_id d)) pages\<rparr>)"
  by (induction pages arbitrary: td st) simp_all

lemma document_pages_upto:
  "document_pages self d =
     [dict_get (data_start_page (data self)) 1 ..
      min (dict_get (data_end_page (data self)) 1) (page_count d)]"
  by (simp add: document_pages_def py_range_def Let_def min_def)

lemma export_tables_calls:
  "analysis_calls (snd (export_tables self d td st)) = analysis_calls st"
  by (simp add: export_tables_def zip_add_def Let_def split: sum.splits)

lemma export_tables_not_csv:
  "dict_get (data_output_format (data self)) ''json'' \<noteq> ''csv'' \<Longrightarrow>
   fst (export_tables self d td st) = None"
  by (simp add: export_tables_def Let_def)

lemma document_loop_calls:
  "document_loop self docs st = (stopped, st') \<Longrightarrow>
   \<exists>k \<le> length docs.
     analysis_calls st' =
       analysis_calls st @
       concat (map (\<lambda>d. map (Pair (doc_id d)) (document_pages self d)) (take k docs)) \<and>
     (stopped = None \<longrightarrow> k = length docs)"
proof (induction docs arbitrary: st)
  case Nil
  then show ?case by simp
next
  case (Cons d docs)
  let ?st1 = "st\<lparr>analysis_calls := analysis_calls st @ map (Pair (doc_id d)) (document_pages self d)\<rparr>"
  let ?td = "concat (map (\<lambda>p. get_table_data (analyze self (doc_id d) p) p) (document_pages self d))"
  obtain s2 st2 where ex: "export_tables self d ?td ?st1 = (s2, st2)"
    by (cases "export_tables self d ?td ?st1")
  have calls2: "analysis_calls st2 =
      analysis_calls st @ map (Pair (doc_id d)) (document_pages self d)"
    using export_tables_calls [of self d ?td ?st1] ex by simp
  show ?case
  proof (cases s2)
    case (Some s)
    then have "stopped = Some s" "st' = st2"
      using Cons.prems ex by (simp_all add: page_loop_result)
    then have "analysis_calls st' =
       analysis_calls st @
       concat (map (\<lambda>d. map (Pair (doc_id d)) (document_pages self d)) (take 1 (d # docs))) \<and>
     (stopped = None \<longrightarrow> 1 = length (d # docs))"
      using calls2 by simp
    moreover have "1 \<le> length (d # docs)" by simp
    ultimately show ?thesis by blast
  next
    case None
    then have "document_loop self docs st2 = (stopped, st')"
      using Cons.prems ex by (simp add: page_loop_result)
    from Cons.IH [OF this] obtain k where k: "k \<le> length docs"
      "analysis_calls st' =
         analysis_calls st2 @
         concat (map (\<lambda>d. map (Pair (doc_id d)) (document_pages self d)) (take k docs))"
      "stopped = None \<longrightarrow> k = length docs"
      by blast
    then have "Suc k \<le> length (d # docs)"
      "analysis_calls st' =
         analysis_calls st @
         concat (map (\<lambda>d. map (Pair (doc_id d)) (document_pages self d)) (take (Suc k) (d # docs)))"
      "stopped = None \<longrightarrow> Suc k = length (d # docs)"
      using calls2 by simp_all
    then show ?thesis by blast
  qed
qed

lemma document_loop_not_csv:
  "dict_get (data_output_format (data self)) ''json'' \<noteq> ''csv'' \<Longrightarrow>
   fst (document_loop self docs st) = None"
proof (induction docs arbitrary: st)
  case Nil
  then show ?case by simp
next
  case (Cons d docs)
  let ?st1 = "st\<lparr>analysis_calls := analysis_calls st @ map (Pair (doc_id d)) (document_pages self d)\<rparr>"
  let ?td = "concat (map (\<lambda>p. get_table_data (analyze self (doc_id d) p) p) (document_pages self d))"
  obtain s2 st2 where ex: "export_tables self d ?td ?st1 = (s2, st2)"
    by (cases "export_tables self d ?td ?st1")
  then have "s2 = None"
    using export_tables_not_csv [OF Cons.prems, of d ?td ?st1] by simp
  then show ?case
    using ex Cons.IH [OF Cons.prems] by (simp add: page_loop_result)
qed

lemma run_gates_pass_iff:
  "fst (run_gates self st) = Inr () \<longleftrightarrow>
     get_document_count self \<noteq> None \<and> \<not> org_missing self \<and>
     (\<exists>cost. calculate_cost (data self) (get_documents self) = Inr cost \<and>
             charge_credits self cost = Charged) \<and>
     \<not> dict_get (data_end_page (data self)) 1 < dict_get (data_start_page (data self)) 1 \<and>
     \<not> dict_get (data_start_page (data self)) 1 < 1"
  by (auto simp add: run_gates_def validate_def Let_def
           split: sum.splits charge_result.splits)

lemma run_gates_pass_state:
  "run_gates self st = (Inr u, st') \<Longrightarrow>
   \<exists>cost. calculate_cost (data self) (get_documents self) = Inr cost \<and>
          charge_credits self cost = Charged \<and>
          st' = st\<lparr>printed := printed st @ [cost], charged := charged st @ [cost]\<rparr>"
  by (auto simp add: run_gates_def validate_def Let_def
           split: sum.splits charge_result.splits if_splits)

lemma run_gates_halt:
  "calculate_cost (data self) (get_documents self) = Inr cost \<Longrightarrow>
   run_gates self st = (Inl stopped, st') \<Longrightarrow>
   stopped = SysExit0 \<and> message st' \<noteq> None \<and> archive st' = archive st \<and>
   analysis_calls st' = analysis_calls st \<and> uploaded st' = uploaded st"
  by (auto simp add: run_gates_def validate_def Let_def
           split: sum.splits charge_result.splits if_splits)

lemma main_halted:
  "run_gates self initial_run = (Inl stopped, st) \<Longrightarrow> main self = (Some stopped, st)"
  by (simp add: main_def)

lemma main_passed:
  "run_gates self initial_run = (Inr u, st) \<Longrightarrow>
   main self =
     (case document_loop self (get_documents self) (st\<lparr>archive := Some []\<rparr>) of
        (Some s, st1) \<Rightarrow> (Some s, st1)
      | (None, st1) \<Rightarrow> (None, st1\<lparr>uploaded := True\<rparr>))"
  by (simp add: main_def)


lemma validate_calls:
  "analysis_calls (snd (validate self st)) = analysis_calls st"
  by (simp add: validate_def Let_def split: sum.splits charge_result.splits)

lemma run_gates_calls:
  "analysis_calls (snd (run_gates self st)) = analysis_calls st"
proof (cases "validate self st")
  case (Pair v st1)
  then have "analysis_calls st1 = analysis_calls st"
    using validate_calls [of self st] by simp
  then show ?thesis
    using Pair by (cases v) (simp_all add: run_gates_def Let_def)
qed

lemma initial_run_calls: "analysis_calls initial_run = []"
  by (simp add: initial_run_def)

lemma main_halted_calls:
  assumes "run_gates self initial_run = (Inl stopped, st)"
  shows "fst (main self) = Some stopped \<and> analysis_calls (snd (main self)) = []"
proof -
  have m: "main self = (Some stopped, st)"
    by (rule main_halted) (rule assms)
  have "analysis_calls (snd (run_gates self initial_run)) = analysis_calls initial_run"
    by (rule run_gates_calls)
  then have "analysis_calls st = []"
    by (simp add: assms initial_run_calls)
  then show ?thesis by (simp add: m)
qed

lemma main_passed_calls:
  assumes "run_gates self initial_run = (Inr u, st)"
  shows "\<exists>k \<le> length (get_documents self).
     analysis_calls (snd (main self)) =
       concat (map (\<lambda>d. map (Pair (doc_id d)) (document_pages self d)) (take k (get_documents self))) \<and>
     (fst (main self) = None \<longrightarrow> k = length (get_documents self))"
proof -
  have "analysis_calls (snd (run_gates self initial_run)) = analysis_calls initial_run"
    by (rule run_gates_calls)
  then have st0: "analysis_calls (st\<lparr>archive := Some []\<rparr>) = []"
    by (simp add: assms initial_run_calls)
  obtain s2 st2 where loop:
    "document_loop self (get_documents self) (st\<lparr>archive := Some []\<rparr>) = (s2, st2)"
    by (rule prod.exhaust)
  from document_loop_calls [OF loop] obtain k where k1: "k \<le> length (get_documents self)"
    and k2: "analysis_calls st2 =
       analysis_calls (st\<lparr>archive := Some []\<rparr>) @
       concat (map (\<lambda>d. map (Pair (doc_id d)) (document_pages self d)) (take k (get_documents self)))"
    and k3: "s2 = None \<longrightarrow> k = length (get_documents self)"
    by (elim exE conjE)
  have m: "main self = (case s2 of Some s \<Rightarrow> (Some s, st2)
                         | None \<Rightarrow> (None, st2\<lparr>uploaded := True\<rparr>))"
    by (cases s2) (simp_all add: main_passed [OF assms] loop)
  have c: "analysis_calls (snd (main self)) = analysis_calls st2"
    by (cases s2) (simp_all add: m)
  have f: "fst (main self) = s2"
    by (cases s2) (simp_all add: m)
  have a: "analysis_calls (snd (main self)) =
     concat (map (\<lambda>d. map (Pair (doc_id d)) (document_pages self d)) (take k (get_documents self)))"
    by (simp only: c k2 st0 append_Nil)
  have b: "fst (main self) = None \<longrightarrow> k = length (get_documents self)"
    unfolding f by (rule k3)
  show ?thesis
    by (rule exI [of _ k]) (intro conjI k1 a b)
qed

lemma main_calls:
  "\<exists>k \<le> length (get_documents self).
     analysis_calls (snd (main self)) =
       concat (map (\<lambda>d. map (Pair (doc_id d)) (document_pages self d)) (take k (get_documents self))) \<and>
     (fst (main self) = None \<longrightarrow> k = length (get_documents self))"
proof -
  obtain g st where gates: "run_gates self initial_run = (g, st)"
    by (rule prod.exhaust)
  show ?thesis
  proof (cases g)
    case (Inl stopped)
    then have "run_gates self initial_run = (Inl stopped, st)"
      using gates by simp
    from main_halted_calls [OF this]
    have h: "fst (main self) = Some stopped" "analysis_calls (snd (main self)) = []"
      by simp_all
    show ?thesis
      by (rule exI [of _ 0]) (simp add: h)
  next
    case (Inr u)
    then have "run_gates self initial_run = (Inr u, st)"
      using gates by simp
    then show ?thesis by (rule main_passed_calls)
  qed
qed

text \<open>
  Claim C4. With \<open>start_page\<close> and \<open>end_page\<close> as \<^verbatim>\<open>main\<close> reads them (1 when absent), the
  pages of a document submitted to the analysis service are exactly the pages from
  \<open>start_page\<close> to \<open>min end_page page_count\<close>, in increasing order, one call each; a document
  with fewer pages than \<open>start_page\<close> gets no call. Over a whole run the calls are those of
  the documents in order, for all documents when \<^verbatim>\<open>main\<close> returns, and for the documents up
  to the one whose export raised otherwise (none when a gate stopped the run).
\<close>

theorem analysis_pages_clamped:
  assumes "start_page = dict_get (data_start_page (data self)) 1"
      and "end_page = dict_get (data_end_page (data self)) 1"
  shows "document_pages self document = [start_page .. min end_page (page_count document)] \<and>
         analysis_calls (snd (page_loop self document (document_pages self document) (table_data, st))) =
           analysis_calls st @
           map (Pair (doc_id document)) [start_page .. min end_page (page_count document)] \<and>
         (page_count document < start_page \<longrightarrow>
            analysis_calls (snd (page_loop self document (document_pages self document) (table_data, st))) =
              analysis_calls st) \<and>
         (\<exists>k \<le> length (get_documents self).
            analysis_calls (snd (main self)) =
              concat (map (\<lambda>d. map (Pair (doc_id d)) [start_page .. min end_page (page_count d)])
                        (take k (get_documents self))) \<and>
            (fst (main self) = None \<longrightarrow> k = length (get_documents self)))"
proof -
  have pages: "document_pages self d = [start_page .. min end_page (page_count d)]" for d
    unfolding assms by (rule document_pages_upto)
  have calls: "analysis_calls (snd (page_loop self document (document_pages self document) (table_data, st))) =
           analysis_calls st @
           map (Pair (doc_id document)) [start_page .. min end_page (page_count document)]"
    by (simp add: page_loop_result pages)
  have short: "page_count document < start_page \<longrightarrow>
            analysis_calls (snd (page_loop self document (document_pages self document) (table_data, st))) =
              analysis_calls st"
    unfolding calls by simp
  have run: "\<exists>k \<le> length (get_documents self).
            analysis_calls (snd (main self)) =
              concat (map (\<lambda>d. map (Pair (doc_id d)) [start_page .. min end_page (page_count d)])
                        (take k (get_documents self))) \<and>
            (fst (main self) = None \<longrightarrow> k = length (get_documents self))"
    using main_calls [of self] unfolding pages .
  show ?thesis
    by (intro conjI pages calls short run)
qed

text \<open>
  Pages 2 to 4 of documents with 3, 1 and 9 pages: pages 2 and 3 of the first, none of the
  second, pages 2, 3 and 4 of the third.
\<close>

theorem analysis_pages_clamped_witness:
  "document_pages
     \<lparr>data = \<lparr>data_output_format = None, data_start_page = Some 2, data_end_page = Some 4\<rparr>,
      org_id = Some 1, get_document_count = Some 3,
      get_documents = [\<lparr>doc_id = ''a'', page_count = 3\<rparr>, \<lparr>doc_id = ''b'', page_count = 1\<rparr>,
                       \<lparr>doc_id = ''c'', page_count = 9\<rparr>],
      charge_credits = (\<lambda>_. Charged), analyze = (\<lambda>_ _. \<lparr>tables = []\<rparr>)\<rparr>
     \<lparr>doc_id = ''b'', page_count = 1\<rparr> = [] \<and>
   analysis_calls (snd (main
     \<lparr>data = \<lparr>data_output_format = None, data_start_page = Some 2, data_end_page = Some 4\<rparr>,
      org_id = Some 1, get_document_count = Some 3,
      get_documents = [\<lparr>doc_id = ''a'', page_count = 3\<rparr>, \<lparr>doc_id = ''b'', page_count = 1\<rparr>,
                       \<lparr>doc_id = ''c'', page_count = 9\<rparr>],
      charge_credits = (\<lambda>_. Charged), analyze = (\<lambda>_ _. \<lparr>tables = []\<rparr>)\<rparr>)) =
   [(''a'', 2), (''a'', 3), (''c'', 2), (''c'', 3), (''c'', 4)]"
proof -
  let ?self = "\<lparr>data = \<lparr>data_output_format = None, data_start_page = Some 2, data_end_page = Some 4\<rparr>,
      org_id = Some 1, get_document_count = Some 3,
      get_documents = [\<lparr>doc_id = ''a'', page_count = 3\<rparr>, \<lparr>doc_id = ''b'', page_count = 1\<rparr>,
                       \<lparr>doc_id = ''c'', page_count = 9\<rparr>],
      charge_credits = (\<lambda>_. Charged), analyze = (\<lambda>_ _. \<lparr>tables = []\<rparr>)\<rparr>"
  have s: "(2::int) = dict_get (data_start_page (data ?self)) 1"
    by (simp add: dict_get_def)
  have e: "(4::int) = dict_get (data_end_page (data ?self)) 1"
    by (simp add: dict_get_def)
  have "document_pages ?self \<lparr>doc_id = ''b'', page_count = 1\<rparr> =
          [2 .. min 4 (page_count \<lparr>doc_id = ''b'', page_count = 1\<rparr>)]"
    using analysis_pages_clamped [OF s e] by (rule conjunct1)
  then have short: "document_pages ?self \<lparr>doc_id = ''b'', page_count = 1\<rparr> = []"
    by simp
  have run: "analysis_calls (snd (main ?self)) =
               [(''a'', 2), (''a'', 3), (''c'', 2), (''c'', 3), (''c'', 4)]"
    by code_simp
  from short run show ?thesis by (rule conjI)
qed

section \<open>Inputs on which the code departs from its specification\<close>

text \<open>
  Claim C2. The run is said to halt before the analysis phase only when no documents are
  selected, no organization is associated, the charge fails, \<open>end_page < start_page\<close> or
  \<open>start_page < 1\<close>, and then with exit status 0 and a message. With \<^verbatim>\<open>end_page\<close> absent
  from the configuration and one selected document, none of the five conditions holds
  (\<^verbatim>\<open>main\<close> itself reads \<^verbatim>\<open>end_page\<close> as 1), yet the run stops inside \<^verbatim>\<open>validate\<close>:
  \<^verbatim>\<open>calculate_cost\<close> raises \<^verbatim>\<open>TypeError\<close>, which nobody catches, no message is set and nothing
  is charged.
\<close>

theorem main_without_end_page:
  "(let self = \<lparr>data = \<lparr>data_output_format = None, data_start_page = None, data_end_page = None\<rparr>,
                 org_id = Some 1, get_document_count = Some 1,
                 get_documents = [\<lparr>doc_id = ''d'', page_count = 3\<rparr>],
                 charge_credits = (\<lambda>_. Charged), analyze = (\<lambda>_ _. \<lparr>tables = []\<rparr>)\<rparr>
    in get_document_count self \<noteq> None \<and> \<not> org_missing self \<and>
       \<not> dict_get (data_end_page (data self)) 1 < dict_get (data_start_page (data self)) 1 \<and>
       \<not> dict_get (data_start_page (data self)) 1 < 1 \<and>
       fst (run_gates self initial_run) = Inl (Unhandled TypeError) \<and>
       fst (main self) = Some (Unhandled TypeError) \<and>
       message (snd (main self)) = None \<and>
       charged (snd (main self)) = [])"
  by code_simp

text \<open>
  Claim C5. The credits charged are said to be 7 times the number of pages analysed. For
  pages 3 to 5 of two documents with 1 and 10 pages the run passes every gate and returns;
  it analyses pages 3, 4 and 5 of the second document, which is 21 credits, and charges
  14: the one-page document enters the cost with \<open>1 - 3 + 1 = -1\<close> pages.
\<close>

theorem charged_differs_from_pages_analyzed:
  "(let self = \<lparr>data = \<lparr>data_output_format = None, data_start_page = Some 3, data_end_page = Some 5\<rparr>,
                 org_id = Some 1, get_document_count = Some 2,
                 get_documents = [\<lparr>doc_id = ''a'', page_count = 1\<rparr>, \<lparr>doc_id = ''b'', page_count = 10\<rparr>],
                 charge_credits = (\<lambda>_. Charged), analyze = (\<lambda>_ _. \<lparr>tables = []\<rparr>)\<rparr>
    in fst (main self) = None \<and> uploaded (snd (main self)) \<and>
       charged (snd (main self)) = [14] \<and>
       analysis_calls (snd (main self)) = [(''b'', 3), (''b'', 4), (''b'', 5)] \<and>
       7 * int (length (analysis_calls (snd (main self)))) = 21)"
  by code_simp

text \<open>
  Claim C9. An absent \<^verbatim>\<open>end_page\<close> is said to behave everywhere as \<^verbatim>\<open>end_page = 1\<close>. The page
  iteration of \<^verbatim>\<open>main\<close> does (page 1 in both configurations), but \<^verbatim>\<open>calculate_cost\<close> reads the
  key without a default: with the key absent it raises \<^verbatim>\<open>TypeError\<close> and the run stops before
  any analysis, while with \<^verbatim>\<open>end_page = 1\<close> the cost is 7 and page 1 is analysed.
\<close>

theorem end_page_default_missing_in_calculate_cost:
  "(let absent = \<lparr>data_output_format = None, data_start_page = None, data_end_page = None\<rparr>;
        supplied = \<lparr>data_output_format = None, data_start_page = None, data_end_page = Some 1\<rparr>;
        d = \<lparr>doc_id = ''d'', page_count = 3\<rparr>;
        run = (\<lambda>cfg. \<lparr>data = cfg, org_id = Some 1, get_document_count = Some 1,
                        get_documents = [d], charge_credits = (\<lambda>_. Charged),
                        analyze = (\<lambda>_ _. \<lparr>tables = []\<rparr>)\<rparr>)
    in calculate_cost absent [d] = Inl TypeError \<and>
       calculate_cost supplied [d] = Inr 7 \<and>
       document_pages (run absent) d = [1] \<and>
       document_pages (run supplied) d = [1] \<and>
       fst (main (run absent)) = Some (Unhandled TypeError) \<and>
       analysis_calls (snd (main (run absent))) = [] \<and>
       fst (main (run supplied)) = None \<and>
       analysis_calls (snd (main (run supplied))) = [(''d'', 1)])"
  by code_simp

section \<open>What holds beside the departures\<close>

text \<open>
  When the cost estimation returns (\<^verbatim>\<open>end_page\<close> is configured, or there is no document), the
  run stops before the analysis phase exactly under the five conditions of the run gate,
  and then with \<^verbatim>\<open>sys.exit(0)\<close>, a message set, no archive and no analysis call.
\<close>

lemma initial_run_fields:
  "message initial_run = None" "archive initial_run = None" "\<not> uploaded initial_run"
  "charged initial_run = []"
  by (simp_all add: initial_run_def)

lemma run_gates_halts_iff:
  assumes "calculate_cost (data self) (get_documents self) = Inr cost"
  shows "isl (fst (run_gates self st)) \<longleftrightarrow>
           get_document_count self = None \<or> org_missing self \<or>
           charge_credits self cost \<noteq> Charged \<or>
           dict_get (data_end_page (data self)) 1 < dict_get (data_start_page (data self)) 1 \<or>
           dict_get (data_start_page (data self)) 1 < 1"
proof -
  have "isl (fst (run_gates self st)) \<longleftrightarrow> fst (run_gates self st) \<noteq> Inr ()"
    by (cases "fst (run_gates self st)") simp_all
  then show ?thesis
    unfolding run_gates_pass_iff assms by auto
qed

lemma main_halts_cleanly:
  assumes cost: "calculate_cost (data self) (get_documents self) = Inr cost"
      and halt: "isl (fst (run_gates self initial_run))"
  shows "fst (main self) = Some SysExit0 \<and> message (snd (main self)) \<noteq> None \<and>
         archive (snd (main self)) = None \<and> analysis_calls (snd (main self)) = [] \<and>
         \<not> uploaded (snd (main self))"
proof -
  obtain g st where gates: "run_gates self initial_run = (g, st)"
    by (rule prod.exhaust)
  from halt gates obtain stopped where g: "g = Inl stopped"
    by (cases g) simp_all
  have r: "run_gates self initial_run = (Inl stopped, st)"
    using gates g by simp
  from run_gates_halt [OF cost r]
  have h: "stopped = SysExit0" "message st \<noteq> None" "archive st = archive initial_run"
    "analysis_calls st = analysis_calls initial_run" "uploaded st = uploaded initial_run"
    by simp_all
  have m: "main self = (Some stopped, st)"
    using r by (rule main_halted)
  show ?thesis
    by (simp add: m h initial_run_fields initial_run_calls)
qed

text \<open>
  When \<^verbatim>\<open>main\<close> returns and no document has fewer than \<open>start_page - 1\<close> pages, the amount
  charged is 7 times the number of analysis calls.
\<close>

lemma calculate_cost_returned:
  assumes "calculate_cost d docs = Inr cost"
  shows "cost = 7 * (\<Sum>doc\<leftarrow>docs. min (dict_get (data_end_page d) 1) (page_count doc) -
                        dict_get (data_start_page d) 1 + 1)"
proof (cases docs)
  case Nil
  then show ?thesis using assms by (simp add: calculate_cost_def)
next
  case (Cons doc rest)
  show ?thesis
  proof (cases "data_end_page d")
    case None
    then have "calculate_cost d docs = Inl TypeError"
      using Cons by (simp add: calculate_cost_def)
    then show ?thesis using assms by simp
  next
    case (Some e)
    have "calculate_cost d docs =
            Inr ((\<Sum>doc\<leftarrow>docs. min e (page_count doc) - dict_get (data_start_page d) 1 + 1) * 7)"
      by (simp add: calculate_cost_def count_pages_configured [OF Some])
    then show ?thesis using assms Some by (simp add: dict_get_def)
  qed
qed

lemma export_tables_charged:
  "charged (snd (export_tables self d td st)) = charged st"
  by (simp add: export_tables_def zip_add_def Let_def split: sum.splits)

lemma document_loop_charged:
  "charged (snd (document_loop self docs st)) = charged st"
proof (induction docs arbitrary: st)
  case Nil
  then show ?case by simp
next
  case (Cons d docs)
  let ?st1 = "st\<lparr>analysis_calls := analysis_calls st @ map (Pair (doc_id d)) (document_pages self d)\<rparr>"
  let ?td = "concat (map (\<lambda>p. get_table_data (analyze self (doc_id d) p) p) (document_pages self d))"
  obtain s2 st2 where ex: "export_tables self d ?td ?st1 = (s2, st2)"
    by (rule prod.exhaust)
  have c2: "charged st2 = charged st"
    using export_tables_charged [of self d ?td ?st1] ex by simp
  show ?case
  proof (cases s2)
    case None
    then show ?thesis using ex c2 Cons.IH [of st2] by (simp add: page_loop_result)
  next
    case (Some s)
    then show ?thesis using ex c2 by (simp add: page_loop_result)
  qed
qed

lemma int_sum_list_nat:
  "\<forall>x \<in> set xs. 0 \<le> f x \<Longrightarrow> int (\<Sum>x\<leftarrow>xs. nat (f x)) = (\<Sum>x\<leftarrow>xs. f x)"
  by (induction xs) simp_all

lemma length_calls_of_documents:
  "length (concat (map (\<lambda>d. map (Pair (doc_id d)) (document_pages self d)) docs)) =
     (\<Sum>d\<leftarrow>docs. nat (min (dict_get (data_end_page (data self)) 1) (page_count d) -
                        dict_get (data_start_page (data self)) 1 + 1))"
  by (simp add: length_concat comp_def document_pages_upto)

lemma main_returned:
  assumes "fst (main self) = None"
  obtains u st st2 where
    "run_gates self initial_run = (Inr u, st)"
    "document_loop self (get_documents self) (st\<lparr>archive := Some []\<rparr>) = (None, st2)"
    "main self = (None, st2\<lparr>uploaded := True\<rparr>)"
proof -
  obtain g st where gates: "run_gates self initial_run = (g, st)"
    by (rule prod.exhaust)
  have "\<exists>u. g = Inr u"
  proof (cases g)
    case (Inl stopped)
    then have "run_gates self initial_run = (Inl stopped, st)" using gates by simp
    then have "main self = (Some stopped, st)" by (rule main_halted)
    then show ?thesis using assms by simp
  next
    case (Inr u)
    then show ?thesis by simp
  qed
  then obtain u where r: "run_gates self initial_run = (Inr u, st)"
    using gates by auto
  obtain s2 st2 where loop:
    "document_loop self (get_documents self) (st\<lparr>archive := Some []\<rparr>) = (s2, st2)"
    by (rule prod.exhaust)
  have m: "main self = (case s2 of Some s \<Rightarrow> (Some s, st2)
                         | None \<Rightarrow> (None, st2\<lparr>uploaded := True\<rparr>))"
    by (cases s2) (simp_all add: main_passed [OF r] loop)
  have s2: "s2 = None"
    using assms by (cases s2) (simp_all add: m)
  show ?thesis
  proof (rule that [OF r])
    show "document_loop self (get_documents self) (st\<lparr>archive := Some []\<rparr>) = (None, st2)"
      using loop s2 by simp
    show "main self = (None, st2\<lparr>uploaded := True\<rparr>)"
      by (simp add: m s2)
  qed
qed

lemma charge_matches_pages_of_long_documents:
  assumes returned: "fst (main self) = None"
      and long: "\<forall>d \<in> set (get_documents self).
                   dict_get (data_start_page (data self)) 1 - 1 \<le> page_count d"
  shows "charged (snd (main self)) = [7 * int (length (analysis_calls (snd (main self))))]"
proof -
  let ?s = "dict_get (data_start_page (data self)) 1"
  let ?e = "dict_get (data_end_page (data self)) 1"
  from returned obtain u st st2 where
    r: "run_gates self initial_run = (Inr u, st)" and
    loop: "document_loop self (get_documents self) (st\<lparr>archive := Some []\<rparr>) = (None, st2)" and
    m: "main self = (None, st2\<lparr>uploaded := True\<rparr>)"
    by (rule main_returned)
  from run_gates_pass_state [OF r] obtain cost where
    cost: "calculate_cost (data self) (get_documents self) = Inr cost" and
    st: "st = initial_run\<lparr>printed := printed initial_run @ [cost],
                            charged := charged initial_run @ [cost]\<rparr>"
    by blast
  have "fst (run_gates self initial_run) = Inr ()" using r by simp
  then have range: "\<not> ?e < ?s"
    unfolding run_gates_pass_iff by simp
  have ch: "charged st2 = [cost]"
    using document_loop_charged [of self "get_documents self" "st\<lparr>archive := Some []\<rparr>"] loop
    by (simp add: st initial_run_fields)
  from document_loop_calls [OF loop] obtain k where
    k: "analysis_calls st2 =
          analysis_calls (st\<lparr>archive := Some []\<rparr>) @
          concat (map (\<lambda>d. map (Pair (doc_id d)) (document_pages self d)) (take k (get_documents self)))"
       "k = length (get_documents self)"
    by auto
  have calls: "analysis_calls st2 =
          concat (map (\<lambda>d. map (Pair (doc_id d)) (document_pages self d)) (get_documents self))"
    using k by (simp add: st initial_run_calls)
  have nonneg: "\<forall>d \<in> set (get_documents self). 0 \<le> min ?e (page_count d) - ?s + 1"
  proof
    fix d assume "d \<in> set (get_documents self)"
    then have "?s - 1 \<le> page_count d" using long by simp
    then show "0 \<le> min ?e (page_count d) - ?s + 1" using range by simp
  qed
  have "int (length (analysis_calls st2)) =
          (\<Sum>d\<leftarrow>get_documents self. min ?e (page_count d) - ?s + 1)"
    unfolding calls length_calls_of_documents using nonneg by (rule int_sum_list_nat)
  then have "cost = 7 * int (length (analysis_calls st2))"
    using calculate_cost_returned [OF cost] by simp
  then show ?thesis by (simp add: m ch)
qed

text \<open>
  The defaults that do apply: an absent \<^verbatim>\<open>start_page\<close> is 1 in the cost and in the page range,
  an absent \<^verbatim>\<open>end_page\<close> is 1 in the page range, an absent \<^verbatim>\<open>output_format\<close> is \<^verbatim>\<open>json\<close> in the
  export, and without documents the cost is 0 whatever the configuration.
\<close>

lemma count_pages_start_page_default:
  "count_pages (d\<lparr>data_start_page := None\<rparr>) docs n =
   count_pages (d\<lparr>data_start_page := Some 1\<rparr>) docs n"
  by (induction docs arbitrary: n) (simp_all add: dict_get_def Let_def split: option.splits)

lemma calculate_cost_start_page_default:
  "calculate_cost (d\<lparr>data_start_page := None\<rparr>) docs =
   calculate_cost (d\<lparr>data_start_page := Some 1\<rparr>) docs"
  by (simp add: calculate_cost_def count_pages_start_page_default)

lemma calculate_cost_no_documents: "calculate_cost d [] = Inr 0"
  by (simp add: calculate_cost_def)

lemma document_pages_defaults:
  "document_pages (self\<lparr>data := (data self)\<lparr>data_start_page := None\<rparr>\<rparr>) doc =
   document_pages (self\<lparr>data := (data self)\<lparr>data_start_page := Some 1\<rparr>\<rparr>) doc"
  "document_pages (self\<lparr>data := (data self)\<lparr>data_end_page := None\<rparr>\<rparr>) doc =
   document_pages (self\<lparr>data := (data self)\<lparr>data_end_page := Some 1\<rparr>\<rparr>) doc"
  by (simp_all add: document_pages_def dict_get_def)

lemma export_tables_output_format_default:
  "export_tables (self\<lparr>data := (data self)\<lparr>data_output_format := None\<rparr>\<rparr>) doc td st =
   export_tables (self\<lparr>data := (data self)\<lparr>data_output_format := Some ''json''\<rparr>\<rparr>) doc td st"
  by (simp add: export_tables_def dict_get_def)

end
